theory Spec2Isabelle
  imports Main "HOL-Library.Sublist"
begin

section \<open>Go runtime: panics and the string functions the package calls\<close>

text \<open>
  A Go slice expression or index out of range, and \<open>make\<close> with a negative length, panic at run
  time. A panic in the supervisor goroutine (or in a connection goroutine of the child) is not
  recovered anywhere in the package, so it ends the process. Every function that can panic
  returns a \<open>result\<close>.
\<close>

datatype 'a result = Ok 'a | Panic

text \<open>\<open>strings.HasPrefix(s, p)\<close>.\<close>

definition HasPrefix :: "string \<Rightarrow> string \<Rightarrow> bool" where
  "HasPrefix s p = (length p \<le> length s \<and> take (length p) s = p)"

text \<open>\<open>strings.IndexByte(s, c)\<close>: the index of the first \<open>c\<close> in \<open>s\<close>, \<open>None\<close> for Go's -1.\<close>

fun IndexByte :: "string \<Rightarrow> char \<Rightarrow> nat option" where
  "IndexByte [] c = None"
| "IndexByte (x # xs) c = (if x = c then Some 0 else map_option Suc (IndexByte xs c))"

text \<open>\<open>strings.Index(s, sep)\<close> for a non-empty separator.\<close>

fun Index :: "string \<Rightarrow> string \<Rightarrow> nat option" where
  "Index [] sep = (if sep = [] then Some 0 else None)"
| "Index (x # xs) sep =
     (if take (length sep) (x # xs) = sep then Some 0 else map_option Suc (Index xs sep))"

text \<open>
  \<open>strings.SplitN(s, sep, 2)\<close> for a non-empty separator: the whole string when the separator
  does not occur, else the text before and the text after its first occurrence.
\<close>

definition SplitN2 :: "string \<Rightarrow> string \<Rightarrow> string list" where
  "SplitN2 s sep =
     (case Index s sep of
        None \<Rightarrow> [s]
      | Some i \<Rightarrow> [take i s, drop (i + length sep) s])"

section \<open>utils.go: the line framing\<close>

text \<open>
  \<open>meta.parse\<close>: the named results \<open>key, val\<close> are empty strings at each bare \<open>return\<close>. The two
  slice expressions \<open>line[len(h)+2:]\<close> and \<open>line[end+2:]\<close> panic when the low bound exceeds the
  length of the string.
\<close>

definition parse :: "string \<Rightarrow> string \<Rightarrow> (string \<times> string) result" where
  "parse h line =
     (if line = [] then Ok ([], [])
      else if length line < length h then Ok ([], [])
      else if take (length h) line \<noteq> h then Ok ([], [])
      else if length line < length h + 2 then Panic
      else
        (let line' = drop (length h + 2) line in
         case IndexByte line' (CHR '':'') of
           None \<Rightarrow> Ok ([], [])
         | Some e \<Rightarrow>
             if length line' < e + 2 then Panic
             else Ok (take e line', drop (e + 2) line')))"

section \<open>errors.go\<close>

text \<open>
  The error values of the package. \<open>ErrConnectionFailed\<close>, \<open>ErrHttpServe\<close>, \<open>ErrInvalidMessage\<close>
  and \<open>ErrRegistrationTimeout\<close> are the package's named error types; \<open>ErrorString\<close> is the
  value of \<open>errors.New\<close>; \<open>DialError\<close> and \<open>WaitError\<close> stand for the errors that the net and
  os/exec packages return (the flag of \<open>WaitError\<close> says whether it is an \<open>*exec.ExitError\<close>).
\<close>

datatype error =
    ErrConnectionFailed string
  | ErrHttpServe string
  | ErrInvalidMessage
  | ErrRegistrationTimeout
  | ErrorString string
  | DialError string
  | WaitError bool string

definition errorCodeConnFailed :: string where
  "errorCodeConnFailed = ''err-connection-failed''"

definition errorCodeHttpServe :: string where
  "errorCodeHttpServe = ''err-http-serve''"

text \<open>
  \<open>parseError\<close>: \<open>None\<close> is Go's nil error. \<open>parts[1]\<close> panics when the split gave one part.
\<close>

definition parseError :: "string \<Rightarrow> error option result" where
  "parseError line =
     (let parts = SplitN2 line '': '' in
      if parts ! 0 = [] then Ok None
      else if length parts < 2 then Panic
      else
        (let e = parts ! 1 in
         if parts ! 0 = errorCodeConnFailed then Ok (Some (ErrConnectionFailed e))
         else if parts ! 0 = errorCodeHttpServe then Ok (Some (ErrHttpServe e))
         else Ok (Some (ErrorString e))))"

section \<open>plugin.go: the supervisor state\<close>

text \<open>
  \<open>strings.Split(s, sep)\<close> for a non-empty separator (an empty one splits after each
  character): the pieces between the occurrences of \<open>sep\<close>, at least one piece.
\<close>

function Split :: "string \<Rightarrow> string \<Rightarrow> string list" where
  "Split s sep =
     (if sep = [] then map (\<lambda>c. [c]) s
      else
        (case Index s sep of
           None \<Rightarrow> [s]
         | Some i \<Rightarrow> take i s # Split (drop (i + length sep) s) sep))"
  by pat_completeness auto

lemma Index_Some_nonempty: "Index s sep = Some i \<Longrightarrow> sep \<noteq> [] \<Longrightarrow> s \<noteq> []"
  by (cases s) auto

termination Split
proof (relation "measure (\<lambda>(s, sep). length s)")
  show "wf (measure (\<lambda>(s, sep). length s))"
    by simp
next
  fix s sep :: string and i :: nat
  assume "sep \<noteq> []" and "Index s sep = Some i"
  then have "s \<noteq> []"
    by (simp add: Index_Some_nonempty)
  with \<open>sep \<noteq> []\<close> have "length s - (i + length sep) < length s"
    by (cases s; cases sep) auto
  then show "((drop (i + length sep) s, sep), (s, sep)) \<in> measure (\<lambda>(s, sep). length s)"
    by simp
qed

declare Split.simps [simp del]

definition internalObject :: string where
  "internalObject = ''PingoRpc''"

text \<open>An \<open>*rpc.Client\<close>, identified by the secret, network and address it was dialled with.\<close>

datatype rpc_client = Client string string string

text \<open>
  What \<open>dialAuthRpc\<close> and \<open>os.Remove\<close> would answer if the supervisor called them while it
  handles a line: the part of the environment that a \<open>ready\<close> line reads.
\<close>

datatype env = Env (dial_err: "error option") (remove_err: "string option")

text \<open>
  The channel of \<open>time.After\<close>: nil once \<open>ready\<close> defused it, armed until its single value has
  been received, drained afterwards (a drained channel never delivers again).
\<close>

datatype timer = TimerNil | TimerArmed | TimerDrained

text \<open>The actions of the supervisor that its environment observes, in the order they happen.\<close>

datatype effect =
    CallReply "error + rpc_client option"
  | ObjectsReply "error + string list"
  | PrintLine string
  | PrintError error
  | HandlerError error
  | ProcKill
  | PidKill
  | Dial string string string
  | RemoveSocket string
  | SpawnDeadline
  | ExitCall
  | ClientClose
  | WaiterDone nat

datatype status = Running | Returned | Crashed

text \<open>
  The struct \<open>ctrl\<close>. The back-reference \<open>p\<close> is represented by the one field of the plugin
  that the loop reads through it, the prefix \<open>meta\<close>. A channel field is \<open>True\<close> when it is
  not nil; \<open>proc\<close> is \<open>True\<close> when the process pointer is not nil; \<open>over\<close> holds the waiter of
  the pending \<open>Stop\<close>. The last three fields are not fields of the struct: \<open>effects\<close> records
  the observable actions, \<open>deadlines\<close> counts the force-kill goroutines that have been started
  and have not fired yet, and \<open>status\<close> says whether \<open>run\<close> is still looping, has returned, or
  has panicked.
\<close>

record ctrl =
  meta :: string
  objs :: "string list"
  proto :: string
  addr :: string
  secret :: string
  err :: "error option"
  connCh :: bool
  objsCh :: bool
  timeoutCh :: timer
  waitCh :: bool
  linesCh :: bool
  over :: "nat option"
  proc :: bool
  client :: "rpc_client option"
  effects :: "effect list"
  deadlines :: nat
  status :: status

text \<open>
  \<open>newCtrl\<close> followed by the start of \<open>run\<close>: \<open>started\<close> says whether the child was spawned and
  its process found, so that \<open>c.proc\<close> was set.
\<close>

definition newCtrl :: "string \<Rightarrow> bool \<Rightarrow> ctrl" where
  "newCtrl pfx started =
     \<lparr>meta = pfx, objs = [], proto = [], addr = [], secret = [], err = None,
      connCh = False, objsCh = False, timeoutCh = TimerArmed, waitCh = True, linesCh = True,
      over = None, proc = started, client = None, effects = [], deadlines = 0,
      status = Running\<rparr>"

definition emit :: "effect \<Rightarrow> ctrl \<Rightarrow> ctrl" where
  "emit e c = c\<lparr>effects := effects c @ [e]\<rparr>"

definition crash :: "ctrl \<Rightarrow> ctrl" where
  "crash c = c\<lparr>status := Crashed\<rparr>"

definition kill :: "ctrl \<Rightarrow> ctrl" where
  "kill c = (if \<not> proc c then c else (emit ProcKill c)\<lparr>proc := False\<rparr>)"

definition close_ch :: "ctrl \<Rightarrow> ctrl" where
  "close_ch c = c\<lparr>connCh := False, objsCh := False\<rparr>"

definition open_ch :: "ctrl \<Rightarrow> ctrl" where
  "open_ch c = c\<lparr>connCh := True, objsCh := True\<rparr>"

definition fatal :: "error \<Rightarrow> ctrl \<Rightarrow> ctrl" where
  "fatal e c = kill (open_ch (c\<lparr>err := Some e\<rparr>))"

definition isFatal :: "ctrl \<Rightarrow> bool" where
  "isFatal c = (err c \<noteq> None)"

text \<open>\<open>ctrl.parseReady\<close>: the error (\<open>None\<close> for nil) and the state, whose \<open>proto\<close> is already
  overwritten when the \<open>addr=\<close> part is rejected.\<close>

definition parseReady :: "string \<Rightarrow> ctrl \<Rightarrow> error option \<times> ctrl" where
  "parseReady str c =
     (if \<not> HasPrefix str ''proto='' then (Some ErrInvalidMessage, c)
      else
        (let str1 = drop 6 str in
         case IndexByte str1 (CHR '' '') of
           None \<Rightarrow> (Some ErrInvalidMessage, c)
         | Some s \<Rightarrow>
             (let pr = take s str1 in
              if pr \<noteq> ''unix'' \<and> pr \<noteq> ''tcp'' then (Some ErrInvalidMessage, c)
              else
                (let c1 = c\<lparr>proto := pr\<rparr>; str2 = drop (s + 1) str1 in
                 if \<not> HasPrefix str2 ''addr='' then (Some ErrInvalidMessage, c1)
                 else (None, c1\<lparr>addr := drop 5 str2\<rparr>)))))"

text \<open>\<open>ctrl.ready\<close>. A failed dial assigns nil to \<open>c.client\<close> before the error is latched.\<close>

definition ready :: "string \<Rightarrow> env \<Rightarrow> ctrl \<Rightarrow> bool \<times> ctrl" where
  "ready val en c =
     (case parseReady val c of
        (Some e, c1) \<Rightarrow> (False, fatal e c1)
      | (None, c1) \<Rightarrow>
          (let c2 = emit (Dial (secret c1) (proto c1) (addr c1)) c1 in
           case dial_err en of
             Some e \<Rightarrow> (False, fatal e (c2\<lparr>client := None\<rparr>))
           | None \<Rightarrow>
               (let c3 = c2\<lparr>client := Some (Client (secret c1) (proto c1) (addr c1))\<rparr>;
                    c4 = (if proto c3 = ''unix'' then
                            (case remove_err en of
                               None \<Rightarrow> emit (RemoveSocket (addr c3)) c3
                             | Some m \<Rightarrow>
                                 emit (HandlerError
                                   (ErrorString (''Cannot remove temporary socket: '' @ m)))
                                   (emit (RemoveSocket (addr c3)) c3))
                          else c3)
                in (True, c4\<lparr>timeoutCh := TimerNil\<rparr>))))"

text \<open>
  \<open>ctrl.objects\<close>. \<open>make([]string, len(c.objs)-1)\<close> panics on the empty list (length -1), and
  \<open>list[j] = c.objs[i]\<close> panics when \<open>j\<close> has reached the length of \<open>list\<close>. The loop walks
  \<open>c.objs\<close> from index 0; \<open>objects_loop\<close> takes the elements still to be visited.
\<close>

fun objects_loop :: "string list \<Rightarrow> string list \<Rightarrow> nat \<Rightarrow> string list result" where
  "objects_loop [] list j = Ok list"
| "objects_loop (x # xs) list j =
     (if x = internalObject then objects_loop xs list j
      else if j < length list then objects_loop xs (list[j := x]) (Suc j)
      else Panic)"

definition objects :: "ctrl \<Rightarrow> string list result" where
  "objects c =
     (if length (objs c) = 0 then Panic
      else objects_loop (objs c) (replicate (length (objs c) - 1) []) 0)"

section \<open>plugin.go: the event loop of \<open>Plugin.run\<close>\<close>

text \<open>
  One event per iteration of the \<open>select\<close>. \<open>OutputLine\<close> carries the line and what the
  environment would answer to a dial; \<open>KillRequest\<close> carries the waiter of the \<open>Stop\<close> that sent
  it; \<open>WaitReturn\<close> carries the error that \<open>wait\<close> sent on \<open>waitCh\<close>. \<open>DeadlineFires\<close> is not
  a case of the \<open>select\<close>: it is the force-kill goroutine started by a kill request reaching
  the end of its sleep, with the answer of \<open>os.FindProcess\<close>.
\<close>

datatype event =
    Timeout
  | CallRequest
  | ObjectsRequest
  | OutputLine string env
  | KillRequest nat
  | WaitReturn "error option"
  | ExitConfirm
  | DeadlineFires bool

fun isExitError :: "error \<Rightarrow> bool" where
  "isExitError (WaitError b m) = b"
| "isExitError e = False"

text \<open>The \<open>linesCh\<close> case: the \<open>switch\<close> on the key that \<open>meta.parse\<close> returned.\<close>

definition on_line :: "string \<Rightarrow> env \<Rightarrow> ctrl \<Rightarrow> ctrl" where
  "on_line line en c =
     (case parse (meta c) line of
        Panic \<Rightarrow> crash c
      | Ok (key, val) \<Rightarrow>
          if key = ''auth-token'' then c\<lparr>secret := val\<rparr>
          else if key = ''fatal'' then
            (case parseError val of
               Panic \<Rightarrow> crash c
             | Ok (Some e) \<Rightarrow> fatal e c
             | Ok None \<Rightarrow> fatal (ErrorString val) c)
          else if key = ''error'' then
            (case parseError val of
               Panic \<Rightarrow> crash c
             | Ok (Some e) \<Rightarrow> emit (PrintError e) c
             | Ok None \<Rightarrow> emit (PrintError (ErrorString val)) c)
          else if key = ''objects'' then c\<lparr>objs := Split val '', ''\<rparr>
          else if key = ''ready'' then
            (case ready val en c of
               (False, c1) \<Rightarrow> c1
             | (True, c1) \<Rightarrow> open_ch c1)
          else emit (PrintLine line) c)"

text \<open>The \<open>killCh\<close> case.\<close>

definition on_kill :: "nat \<Rightarrow> ctrl \<Rightarrow> ctrl" where
  "on_kill wr c =
     (if \<not> waitCh c then emit (WaiterDone wr) c
      else
        (let c1 = (if \<not> connCh c \<or> client c = None then kill c
                   else emit ExitCall ((emit SpawnDeadline c)\<lparr>deadlines := deadlines c + 1\<rparr>));
             c2 = (if client c1 \<noteq> None then emit ClientClose c1 else c1);
             c3 = close_ch c2
         in c3\<lparr>over := Some wr\<rparr>))"

text \<open>The \<open>waitCh\<close> case.\<close>

definition on_wait :: "error option \<Rightarrow> ctrl \<Rightarrow> ctrl" where
  "on_wait e c =
     (let c1 = (case e of
                  None \<Rightarrow> c
                | Some x \<Rightarrow> fatal x (if isExitError x then c else emit (HandlerError x) c));
          c2 = (case over c1 of
                  None \<Rightarrow> c1
                | Some wr \<Rightarrow> emit (WaiterDone wr) c1)
      in c2\<lparr>proc := False, waitCh := False, linesCh := False\<rparr>)"

text \<open>
  One iteration of the loop. A receive from a nil channel never happens, so an event whose
  channel is nil leaves the state as it is; so does every event once \<open>run\<close> has returned or
  panicked. The force-kill goroutine runs beside the loop, also after \<open>run\<close> has returned.
\<close>

fun step :: "ctrl \<Rightarrow> event \<Rightarrow> ctrl" where
  "step c (DeadlineFires found) =
     (if status c = Crashed \<or> deadlines c = 0 then c
      else (if found then emit PidKill c else c)\<lparr>deadlines := deadlines c - 1\<rparr>)"
| "step c Timeout =
     (if status c \<noteq> Running \<or> timeoutCh c \<noteq> TimerArmed then c
      else fatal ErrRegistrationTimeout (c\<lparr>timeoutCh := TimerDrained\<rparr>))"
| "step c CallRequest =
     (if status c \<noteq> Running \<or> \<not> connCh c then c
      else
        (case err c of
           Some e \<Rightarrow> emit (CallReply (Inl e)) c
         | None \<Rightarrow> emit (CallReply (Inr (client c))) c))"
| "step c ObjectsRequest =
     (if status c \<noteq> Running \<or> \<not> objsCh c then c
      else
        (case err c of
           Some e \<Rightarrow> emit (ObjectsReply (Inl e)) c
         | None \<Rightarrow>
             (case objects c of
                Panic \<Rightarrow> crash c
              | Ok list \<Rightarrow> emit (ObjectsReply (Inr list)) c)))"
| "step c (OutputLine line en) =
     (if status c \<noteq> Running \<or> \<not> linesCh c then c else on_line line en c)"
| "step c (KillRequest wr) =
     (if status c \<noteq> Running then c else on_kill wr c)"
| "step c (WaitReturn e) =
     (if status c \<noteq> Running \<or> \<not> waitCh c then c else on_wait e c)"
| "step c ExitConfirm =
     (if status c \<noteq> Running then c else c\<lparr>status := Returned\<rparr>)"

text \<open>The supervisor after a sequence of events.\<close>

definition run :: "ctrl \<Rightarrow> event list \<Rightarrow> ctrl" where
  "run c evs = foldl step c evs"

text \<open>
  The invariant behind the single kill through \<open>ctrl.kill\<close>: \<open>c.proc.Kill()\<close> has been called
  at most once, and not at all while the process pointer is still held.
\<close>

definition kill_inv :: "ctrl \<Rightarrow> bool" where
  "kill_inv c =
     (count_list (effects c) ProcKill \<le> 1 \<and> (proc c \<longrightarrow> count_list (effects c) ProcKill = 0))"

section \<open>The child runtime: authenticating a connection\<close>

abbreviation NL :: char where
  "NL \<equiv> CHR 0x0A"

abbreviation CR :: char where
  "CR \<equiv> CHR 0x0D"

text \<open>\<open>client.authenticate\<close>: the bytes that the host writes before any RPC traffic.\<close>

definition authenticate :: "string \<Rightarrow> string" where
  "authenticate s = ''Auth-Token: '' @ s @ [NL, NL]"

text \<open>
  \<open>readHeaders\<close> on the bytes that the connection delivers before \<open>ReadByte\<close> returns an error
  (end of file or a network error): the header block up to and including the first two
  consecutive newlines together with the unread rest, or \<open>None\<close> when the error comes first.
\<close>

fun readHeaders_loop :: "string \<Rightarrow> bool \<Rightarrow> string \<Rightarrow> (string \<times> string) option" where
  "readHeaders_loop buf headerEnd [] = None"
| "readHeaders_loop buf headerEnd (b # bs) =
     (if b = NL then
        (if headerEnd then Some (buf @ [b], bs) else readHeaders_loop (buf @ [b]) True bs)
      else readHeaders_loop (buf @ [b]) False bs)"

definition readHeaders :: "string \<Rightarrow> (string \<times> string) option" where
  "readHeaders input = readHeaders_loop [] False input"

text \<open>
  The lines that \<open>bufio.Scanner\<close> yields with its default split function \<open>ScanLines\<close>: the text
  between newlines with one trailing carriage return dropped, and a last unterminated line if
  it is not empty. A line of \<open>bufio.MaxScanTokenSize\<close> bytes or more without a newline fills the
  buffer, \<open>Scan\<close> returns false, and the loop of \<open>parseHeaders\<close> ends there.
\<close>

definition MaxScanTokenSize :: nat where
  "MaxScanTokenSize = 64 * 1024"

definition dropCR :: "string \<Rightarrow> string" where
  "dropCR data = (if data \<noteq> [] \<and> last data = CR then butlast data else data)"

fun scan_loop :: "string \<Rightarrow> string \<Rightarrow> string list" where
  "scan_loop tok [] = (if tok = [] then [] else [dropCR tok])"
| "scan_loop tok (b # bs) =
     (if b = NL then dropCR tok # scan_loop [] bs
      else if MaxScanTokenSize \<le> length tok + 1 then []
      else scan_loop (tok @ [b]) bs)"

definition scan_lines :: "string \<Rightarrow> string list" where
  "scan_lines data = scan_loop [] data"

text \<open>
  The loop of \<open>parseHeaders\<close> over the scanned lines: \<open>m[parts[0]] = parts[1]\<close> panics on a
  non-empty line without the separator.
\<close>

fun parseHeaders_loop :: "string list \<Rightarrow> (string \<rightharpoonup> string) \<Rightarrow> (string \<rightharpoonup> string) result" where
  "parseHeaders_loop [] m = Ok m"
| "parseHeaders_loop (l # ls) m =
     (let parts = SplitN2 l '': '' in
      if parts ! 0 = [] then parseHeaders_loop ls m
      else if length parts < 2 then Panic
      else parseHeaders_loop ls (m(parts ! 0 \<mapsto> parts ! 1)))"

text \<open>The outcome of \<open>parseHeaders\<close>: the read error, a panic, or the filled map and the bytes
  not yet read.\<close>

datatype parsed = ReadFailed | ParsePanic | Parsed "string \<rightharpoonup> string" string

definition parseHeaders :: "string \<Rightarrow> (string \<rightharpoonup> string) \<Rightarrow> parsed" where
  "parseHeaders input m =
     (case readHeaders input of
        None \<Rightarrow> ReadFailed
      | Some (headers, rest) \<Rightarrow>
          (case parseHeaders_loop (scan_lines headers) m of
             Panic \<Rightarrow> ParsePanic
           | Ok m' \<Rightarrow> Parsed m' rest))"

text \<open>Indexing a Go map: the empty string for a key that is absent.\<close>

definition map_index :: "(string \<rightharpoonup> string) \<Rightarrow> string \<Rightarrow> string" where
  "map_index m k = (case m k of None \<Rightarrow> [] | Some v \<Rightarrow> v)"

definition authConn :: "string \<Rightarrow> string \<Rightarrow> bool" where
  "authConn sec token = (token \<noteq> [] \<and> token = sec)"

text \<open>
  \<open>rpcServer.serveConn\<close> for a server with the given secret: \<open>Dispatched rest\<close> when the
  connection, with the bytes after the header block still unread, is handed to
  \<open>Server.ServeConn\<close>; \<open>Closed\<close> when the deferred \<open>Close\<close> runs without a dispatch;
  \<open>ClosedAfterError\<close> when the read error was printed first; \<open>ServePanic\<close> when the goroutine
  panics, which ends the child.
\<close>

datatype served = Dispatched string | Closed | ClosedAfterError | ServePanic

definition serveConn :: "string \<Rightarrow> string \<Rightarrow> served" where
  "serveConn sec input =
     (case parseHeaders input Map.empty of
        ReadFailed \<Rightarrow> ClosedAfterError
      | ParsePanic \<Rightarrow> ServePanic
      | Parsed headers rest \<Rightarrow>
          if authConn sec (map_index headers ''Auth-Token'') then Dispatched rest
          else Closed)"

section \<open>The child runtime: binding a listener\<close>

text \<open>\<open>meta.output\<close>: the line printed on standard output, without its newline.\<close>

definition meta_output :: "string \<Rightarrow> string \<Rightarrow> string \<Rightarrow> string" where
  "meta_output h key val = h @ '': '' @ key @ '': '' @ val"

text \<open>\<open>strings.Join(elems, sep)\<close>.\<close>

fun Join :: "string list \<Rightarrow> string \<Rightarrow> string" where
  "Join [] sep = []"
| "Join [x] sep = x"
| "Join (x # y # ys) sep = x @ sep @ Join (y # ys) sep"

text \<open>The verb \<open>%d\<close> of \<open>fmt.Sprintf\<close> on an \<open>int\<close>.\<close>

function digits :: "nat \<Rightarrow> string" where
  "digits n = (if n < 10 then [''0123456789'' ! n] else digits (n div 10) @ [''0123456789'' ! (n mod 10)])"
  by pat_completeness auto
termination digits
  by (relation "measure (\<lambda>n. n)") auto

declare digits.simps [simp del]

definition itoa :: "int \<Rightarrow> string" where
  "itoa i = (if i < 0 then CHR ''-'' # digits (nat (- i)) else digits (nat i))"

text \<open>
  \<open>randstr\<close>. The generator is the sequence \<open>g\<close> of the values that \<open>rand.Intn(64)\<close> returns,
  read from position \<open>k\<close>; the result is the string and the next position.
\<close>

definition letters :: string where
  "letters = ''abcdefghijklmnopqrstuvwxyzABCDEFGHIJKLMNOPQRSTUVWXYZ0123456789_-''"

definition randstr :: "nat \<Rightarrow> (nat \<Rightarrow> nat) \<Rightarrow> nat \<Rightarrow> string \<times> nat" where
  "randstr n g k = (map (\<lambda>i. letters ! (g (k + i) mod length letters)) [0..<n], k + n)"

text \<open>
  The two implementations of the interface \<open>connection\<close>: \<open>tcp\<close> is the last port tried, \<open>unix\<close>
  is the directory of the socket. \<open>addr\<close> returns the address, the updated receiver and the
  next position of the generator. \<open>pj\<close> stands for \<open>filepath.FromSlash(path.Join(dir, name))\<close>
  of the standard library.
\<close>

datatype connection = Tcp int | Unix string

fun conn_addr ::
  "(string \<Rightarrow> string \<Rightarrow> string) \<Rightarrow> (nat \<Rightarrow> nat) \<Rightarrow> connection \<Rightarrow> nat \<Rightarrow> string \<times> connection \<times> nat"
where
  "conn_addr pj g (Tcp t) k =
     (let t1 = (if t < 1024 then 1023 else t); t2 = t1 + 1
      in (''127.0.0.1:'' @ itoa t2, Tcp t2, k))"
| "conn_addr pj g (Unix u) k =
     (let (name, k') = randstr 8 g k
      in ((if u \<noteq> [] then pj u name else name), Unix u, k'))"

fun retries :: "connection \<Rightarrow> nat" where
  "retries (Tcp t) = 500"
| "retries (Unix u) = 4"

text \<open>The fields of \<open>config\<close>, as the flags set them.\<close>

datatype config =
  Config (conf_proto: string) (conf_addr: string) (conf_prefix: string) (conf_unixdir: string)

text \<open>
  The retry loop of \<open>rpcServer.run\<close> with \<open>n\<close> iterations left, \<open>i\<close> the loop counter.
  \<open>listen pr a i\<close> is the error of \<open>net.Listen(pr, a)\<close> at iteration \<open>i\<close>, \<open>None\<close> when it
  succeeded. The result is the list of the addresses tried, in order (the last one is
  \<open>r.conf.addr\<close>), and the value of \<open>err\<close> after the loop.
\<close>

fun bind_loop ::
  "(string \<Rightarrow> string \<Rightarrow> nat \<Rightarrow> error option) \<Rightarrow> (string \<Rightarrow> string \<Rightarrow> string) \<Rightarrow> (nat \<Rightarrow> nat) \<Rightarrow>
   string \<Rightarrow> nat \<Rightarrow> nat \<Rightarrow> connection \<Rightarrow> nat \<Rightarrow> error option \<Rightarrow> string list \<times> error option"
where
  "bind_loop listen pj g pr 0 i conn k e = ([], e)"
| "bind_loop listen pj g pr (Suc n) i conn k e =
     (let (a, conn', k') = conn_addr pj g conn k in
      case listen pr a i of
        None \<Rightarrow> ([a], None)
      | Some e' \<Rightarrow>
          (let (tried, e'') = bind_loop listen pj g pr n (Suc i) conn' k' (Some e')
           in (a # tried, e'')))"

text \<open>
  \<open>rpcServer.run\<close> up to the end of the handshake (the accept loop that follows never returns):
  the lines printed, the addresses tried and the error returned. As in the source, the
  \<open>unix\<close> connection is the zero value \<open>new(unix)\<close>, whatever \<open>conf.unixdir\<close> holds.
\<close>

definition rpcServer_run ::
  "(string \<Rightarrow> string \<Rightarrow> nat \<Rightarrow> error option) \<Rightarrow> (string \<Rightarrow> string \<Rightarrow> string) \<Rightarrow> (nat \<Rightarrow> nat) \<Rightarrow>
   config \<Rightarrow> string list \<Rightarrow> string \<Rightarrow> string list \<times> string list \<times> error option"
where
  "rpcServer_run listen pj g conf names sec =
     (let h = conf_prefix conf;
          out0 = [meta_output h ''objects'' (Join names '', '')];
          (pr, conn) = (if conf_proto conf = ''tcp'' then (''tcp'', Tcp 0) else (''unix'', Unix []));
          (tried, e) = bind_loop listen pj g pr (retries conn) 0 conn 0 None
      in case e of
           Some er \<Rightarrow>
             (out0 @ [meta_output h ''fatal''
                (errorCodeConnFailed @ '': Could not connect in '' @ itoa (int (retries conn))
                   @ '' attemps, using '' @ pr @ '' protocol'')],
              tried, Some er)
         | None \<Rightarrow>
             (out0 @ [meta_output h ''auth-token'' sec,
                      meta_output h ''ready'' (''proto='' @ pr @ '' addr='' @ last tried)],
              tried, None))"

section \<open>Properties of the framing functions\<close>

lemma IndexByte_Some:
  "IndexByte xs c = Some i \<Longrightarrow>
     xs = take i xs @ c # drop (Suc i) xs \<and> c \<notin> set (take i xs) \<and> i < length xs"
proof (induction xs arbitrary: i)
  case Nil
  then show ?case by simp
next
  case (Cons x xs)
  show ?case
  proof (cases "x = c")
    case True
    with Cons.prems show ?thesis by simp
  next
    case False
    with Cons.prems obtain k where k: "IndexByte xs c = Some k" "i = Suc k"
      by auto
    from Cons.IH [OF k(1)] False k(2) show ?thesis
      by auto
  qed
qed

lemma IndexByte_None: "IndexByte xs c = None \<longleftrightarrow> c \<notin> set xs"
  by (induction xs) auto








text \<open>
  Claim C9 (\<open>meta.parse\<close> is total) fails on the code: a line that is exactly the prefix, and a
  line whose first colon after the skipped characters is its last character, make a slice
  expression panic, and the panic ends the supervisor.
\<close>

theorem parse_panics_on_short_line:
  "parse ''pingoabcde'' ''pingoabcde'' = Panic \<and>
   parse ''pingoabcde'' ''pingoabcde: key:'' = Panic \<and>
   status (step (newCtrl ''pingoabcde'' True) (OutputLine ''pingoabcde'' (Env None None)))
     = Crashed"
  by (simp add: parse_def newCtrl_def on_line_def crash_def)

text \<open>\<open>parseError\<close> panics exactly on the non-empty strings without the separator.\<close>

lemma parseError_Panic_iff:
  "parseError line = Panic \<longleftrightarrow> line \<noteq> [] \<and> Index line '': '' = None"
  by (auto simp: parseError_def SplitN2_def Let_def split: option.splits)

text \<open>
  Claim C8 (\<open>parseError\<close> is total) fails on the code: the value of the child line
  \<open>fatal: somefreeformtext\<close> has no separator, \<open>parts[1]\<close> is out of range, and the supervisor
  panics instead of latching \<open>errors.New(val)\<close>.
\<close>

theorem parseError_panics_on_freeform:
  "parseError ''somefreeformtext'' = Panic \<and>
   parse ''pfx'' ''pfx: fatal: somefreeformtext'' = Ok (''fatal'', ''somefreeformtext'') \<and>
   status (step (newCtrl ''pfx'' True)
     (OutputLine ''pfx: fatal: somefreeformtext'' (Env None None))) = Crashed"
  by (simp add: parseError_def SplitN2_def parse_def newCtrl_def on_line_def crash_def)

section \<open>Properties of the ready handling\<close>

lemma HasPrefix_append: "HasPrefix s p \<longleftrightarrow> (\<exists>r. s = p @ r)"
proof
  assume "HasPrefix s p"
  then have "s = p @ drop (length p) s"
    unfolding HasPrefix_def by (metis append_take_drop_id)
  then show "\<exists>r. s = p @ r" ..
next
  assume "\<exists>r. s = p @ r"
  then show "HasPrefix s p"
    by (auto simp: HasPrefix_def)
qed

lemma parseReady_result:
  "fst (parseReady v c) = None \<or> fst (parseReady v c) = Some ErrInvalidMessage"
  by (simp add: parseReady_def Let_def split: option.splits)

lemma parseReady_accepts:
  assumes "pr = ''unix'' \<or> pr = ''tcp''"
  shows "parseReady (''proto='' @ pr @ '' addr='' @ a) c = (None, c\<lparr>proto := pr, addr := a\<rparr>)"
  using assms by (auto simp: parseReady_def HasPrefix_def Let_def)

lemma parseReady_form:
  assumes "fst (parseReady v c) = None"
  shows "\<exists>pr a. (pr = ''unix'' \<or> pr = ''tcp'') \<and> v = ''proto='' @ pr @ '' addr='' @ a"
proof -
  from assms have p1: "HasPrefix v ''proto=''"
    by (auto simp: parseReady_def split: if_splits)
  then obtain s1 where v: "v = ''proto='' @ s1"
    by (auto simp: HasPrefix_append)
  then have d: "drop 6 v = s1" by simp
  from assms p1 obtain s where s: "IndexByte s1 (CHR '' '') = Some s"
    unfolding parseReady_def d Let_def by (auto split: option.splits)
  define pr where "pr = take s s1"
  define s2 where "s2 = drop (Suc s) s1"
  from assms p1 s have pr: "pr = ''unix'' \<or> pr = ''tcp''" and p2: "HasPrefix s2 ''addr=''"
    unfolding parseReady_def d Let_def pr_def s2_def
    by (auto split: if_splits)
  from IndexByte_Some [OF s] have s1: "s1 = pr @ CHR '' '' # s2"
    by (simp add: pr_def s2_def)
  from p2 obtain a where a: "s2 = ''addr='' @ a"
    by (auto simp: HasPrefix_append)
  from v s1 a have "v = ''proto='' @ pr @ '' addr='' @ a"
    by simp
  with pr show ?thesis by blast
qed

lemma parseReady_keeps:
  "effects (snd (parseReady v c)) = effects c \<and> proc (snd (parseReady v c)) = proc c
   \<and> secret (snd (parseReady v c)) = secret c"
  by (simp add: parseReady_def Let_def split: option.splits)

lemma ready_rejected:
  assumes "fst (parseReady v c) \<noteq> None"
  shows "fst (ready v en c) = False \<and> err (snd (ready v en c)) = Some ErrInvalidMessage \<and>
         effects (snd (ready v en c)) = effects c @ (if proc c then [ProcKill] else [])"
proof -
  obtain e c1 where p: "parseReady v c = (Some e, c1)"
    using assms by (cases "parseReady v c") auto
  with parseReady_result [of v c] have e: "e = ErrInvalidMessage" by simp
  from p parseReady_keeps [of v c] have k: "effects c1 = effects c" "proc c1 = proc c"
    by simp_all
  show ?thesis
    using p e k by (simp add: ready_def fatal_def kill_def open_ch_def emit_def)
qed

lemma ready_accepted:
  assumes "pr = ''unix'' \<or> pr = ''tcp''"
  shows "take (Suc (length (effects c)))
           (effects (snd (ready (''proto='' @ pr @ '' addr='' @ a) en c)))
         = effects c @ [Dial (secret c) pr a]"
  unfolding ready_def parseReady_accepts [OF assms]
  by (simp add: Let_def fatal_def kill_def open_ch_def emit_def split: option.splits)

text \<open>
  Claim C3, as amended. \<open>parseReady\<close> accepts a value exactly when it is \<open>proto=unix addr=\<close> or
  \<open>proto=tcp addr=\<close> followed by any text, the empty text included; its only error is the
  invalid-message error. On a rejected value \<open>ready\<close> latches that error, kills the child if
  the process is still held, and dials nothing; on an accepted value the next action is the
  dial of the parsed protocol and address.
\<close>

theorem ready_dials_iff_form:
  "(fst (parseReady v c) = None \<longleftrightarrow>
      (\<exists>pr a. (pr = ''unix'' \<or> pr = ''tcp'') \<and> v = ''proto='' @ pr @ '' addr='' @ a))
   \<and> (fst (parseReady v c) = None \<or> fst (parseReady v c) = Some ErrInvalidMessage)
   \<and> (fst (parseReady v c) \<noteq> None \<longrightarrow>
        fst (ready v en c) = False \<and> err (snd (ready v en c)) = Some ErrInvalidMessage \<and>
        effects (snd (ready v en c)) = effects c @ (if proc c then [ProcKill] else []))
   \<and> (\<forall>pr a. (pr = ''unix'' \<or> pr = ''tcp'') \<and> v = ''proto='' @ pr @ '' addr='' @ a \<longrightarrow>
        take (Suc (length (effects c))) (effects (snd (ready v en c)))
          = effects c @ [Dial (secret c) pr a])"
proof (intro conjI)
  show "fst (parseReady v c) = None \<longleftrightarrow>
      (\<exists>pr a. (pr = ''unix'' \<or> pr = ''tcp'') \<and> v = ''proto='' @ pr @ '' addr='' @ a)"
    using parseReady_form [of v c] parseReady_accepts [of _ _ c] by fastforce
  show "fst (parseReady v c) = None \<or> fst (parseReady v c) = Some ErrInvalidMessage"
    by (rule parseReady_result)
  show "fst (parseReady v c) \<noteq> None \<longrightarrow>
        fst (ready v en c) = False \<and> err (snd (ready v en c)) = Some ErrInvalidMessage \<and>
        effects (snd (ready v en c)) = effects c @ (if proc c then [ProcKill] else [])"
    using ready_rejected [of v c en] by blast
  show "\<forall>pr a. (pr = ''unix'' \<or> pr = ''tcp'') \<and> v = ''proto='' @ pr @ '' addr='' @ a \<longrightarrow>
        take (Suc (length (effects c))) (effects (snd (ready v en c)))
          = effects c @ [Dial (secret c) pr a]"
    using ready_accepted [of _ c _ en] by blast
qed

theorem ready_dials_iff_form_witness:
  "fst (parseReady ''proto=unix addr=/tmp/abcdefgh'' (newCtrl ''pfx'' True)) = None \<and>
   effects (snd (ready ''proto=unix addr=/tmp/abcdefgh'' (Env None None) (newCtrl ''pfx'' True)))
     = [Dial [] ''unix'' ''/tmp/abcdefgh'', RemoveSocket ''/tmp/abcdefgh''] \<and>
   fst (parseReady ''proto=sctp addr=x'' (newCtrl ''pfx'' True)) = Some ErrInvalidMessage \<and>
   err (snd (ready ''proto=sctp addr=x'' (Env None None) (newCtrl ''pfx'' True)))
     = Some ErrInvalidMessage \<and>
   effects (snd (ready ''proto=sctp addr=x'' (Env None None) (newCtrl ''pfx'' True)))
     = [ProcKill]"
  using ready_dials_iff_form [of "''proto=unix addr=/tmp/abcdefgh''" "newCtrl ''pfx'' True"
      "Env None None"]
    ready_dials_iff_form [of "''proto=sctp addr=x''" "newCtrl ''pfx'' True" "Env None None"]
  by (simp add: parseReady_def HasPrefix_def ready_def newCtrl_def emit_def fatal_def kill_def
      open_ch_def)

text \<open>
  Claim C3 as stated fails: the value with an empty \<open>addr=\<close> part is accepted, the supervisor
  dials the empty address, and the error that is latched is the one of the dial.
\<close>

theorem parseReady_empty_addr_counterexample:
  "fst (parseReady ''proto=tcp addr='' (newCtrl ''pfx'' True)) = None \<and>
   err (snd (ready ''proto=tcp addr='' (Env (Some (DialError ''missing address'')) None)
     (newCtrl ''pfx'' True))) = Some (DialError ''missing address'') \<and>
   effects (snd (ready ''proto=tcp addr='' (Env (Some (DialError ''missing address'')) None)
     (newCtrl ''pfx'' True))) = [Dial [] ''tcp'' [], ProcKill]"
  by (simp add: parseReady_def HasPrefix_def ready_def newCtrl_def emit_def fatal_def kill_def
      open_ch_def)

section \<open>Properties of the object list\<close>

lemma count_filter_length:
  "length (filter (\<lambda>x. x \<noteq> k) xs) + count_list xs k = length xs"
  by (induction xs) auto

lemma objects_loop_eq:
  "j \<le> length list \<Longrightarrow> objects_loop xs list j =
     (if j + length (filter (\<lambda>x. x \<noteq> internalObject) xs) \<le> length list
      then Ok (take j list @ filter (\<lambda>x. x \<noteq> internalObject) xs
                 @ drop (j + length (filter (\<lambda>x. x \<noteq> internalObject) xs)) list)
      else Panic)"
proof (induction xs arbitrary: list j)
  case Nil
  then show ?case by simp
next
  case (Cons x xs)
  show ?case
  proof (cases "x = internalObject")
    case True
    with Cons.IH [OF Cons.prems] show ?thesis by simp
  next
    case False
    show ?thesis
    proof (cases "j < length list")
      case True
      then have "Suc j \<le> length (list[j := x])" by simp
      from Cons.IH [OF this] True False show ?thesis
        by (simp add: take_Suc_conv_app_nth)
    next
      case False
      with \<open>x \<noteq> internalObject\<close> show ?thesis by simp
    qed
  qed
qed

lemma objects_eq:
  "objects c =
     (if internalObject \<in> set (objs c)
      then Ok (filter (\<lambda>x. x \<noteq> internalObject) (objs c)
                 @ replicate (count_list (objs c) internalObject - 1) [])
      else Panic)"
proof -
  let ?f = "filter (\<lambda>x. x \<noteq> internalObject) (objs c)"
  let ?k = "count_list (objs c) internalObject"
  have len: "length ?f + ?k = length (objs c)"
    by (rule count_filter_length)
  show ?thesis
  proof (cases "internalObject \<in> set (objs c)")
    case True
    then have "?k \<noteq> 0" by (simp add: count_list_0_iff)
    then have k: "0 < ?k" by simp
    then have ne: "objs c \<noteq> []" using True by auto
    from len k have le: "length ?f \<le> length (objs c) - 1" by arith
    from len k have d: "length (objs c) - 1 - length ?f = ?k - 1" by arith
    from True ne le d show ?thesis
      by (simp add: objects_def objects_loop_eq)
  next
    case False
    then have "?k = 0" by (simp add: count_list_0_iff)
    with len have f: "length ?f = length (objs c)" by simp
    show ?thesis
    proof (cases "objs c = []")
      case True
      with False show ?thesis by (simp add: objects_def)
    next
      case ne: False
      then have "\<not> length (objs c) \<le> length (objs c) - 1"
        by (cases "objs c") auto
      with False f ne show ?thesis
        by (simp add: objects_def objects_loop_eq)
    qed
  qed
qed

lemma filter_neq_removeAll: "filter (\<lambda>x. x \<noteq> k) xs = removeAll k xs"
  by (induction xs) auto

lemma objects_once:
  assumes "count_list (objs c) internalObject = 1"
  shows "objects c = Ok (removeAll internalObject (objs c))"
proof -
  from assms have "internalObject \<in> set (objs c)"
    by (metis count_list_0_iff zero_neq_one)
  with assms show ?thesis
    by (simp add: objects_eq filter_neq_removeAll)
qed

lemma objects_Ok:
  assumes "objects c = Ok l"
  shows "l = removeAll internalObject (objs c)
           @ replicate (count_list (objs c) internalObject - 1) []
         \<and> internalObject \<notin> set l"
proof -
  from assms have l: "l = removeAll internalObject (objs c)
           @ replicate (count_list (objs c) internalObject - 1) []"
    by (simp add: objects_eq filter_neq_removeAll split: if_splits)
  have "internalObject \<noteq> []" by (simp add: internalObject_def)
  with l show ?thesis by auto
qed

text \<open>
  When the stored object list contains the built-in name \<open>PingoRpc\<close> exactly once, as the
  list announced by the child runtime does, \<open>objects\<close> returns the stored list with that name
  removed, and an Objects request serviced without a latched fatal error is answered with
  that list. Whenever \<open>objects\<close> returns a list, the list does not contain the built-in name.
\<close>

lemma objects_request_removes_internal:
  "(count_list (objs c) internalObject = 1 \<longrightarrow>
      objects c = Ok (removeAll internalObject (objs c)))
   \<and> (count_list (objs c) internalObject = 1 \<and> status c = Running \<and> objsCh c \<and> err c = None
        \<longrightarrow> step c ObjectsRequest
              = emit (ObjectsReply (Inr (removeAll internalObject (objs c)))) c)
   \<and> (objects c = Ok l \<longrightarrow> internalObject \<notin> set l)"
  using objects_once [of c] objects_Ok [of c l] by simp

text \<open>
  Claim C5 fails on the code. After the child announced the built-in name twice (a plugin
  that registers a type of its own called \<open>PingoRpc\<close>), an Objects request serviced without a
  latched error is answered with a list holding one empty string, a name that no object
  has, while the stored list with every occurrence of the built-in name removed is empty:
  the result slice is sized \<open>len(c.objs) - 1\<close>, for exactly one built-in entry.
\<close>

theorem objects_reports_phantom_name:
  "objs (run (newCtrl ''pfx'' True)
       [OutputLine ''pfx: objects: PingoRpc, PingoRpc'' (Env None None),
        OutputLine ''pfx: ready: proto=tcp addr=127.0.0.1:1024'' (Env None None)])
     = [''PingoRpc'', ''PingoRpc''] \<and>
   err (run (newCtrl ''pfx'' True)
       [OutputLine ''pfx: objects: PingoRpc, PingoRpc'' (Env None None),
        OutputLine ''pfx: ready: proto=tcp addr=127.0.0.1:1024'' (Env None None)]) = None \<and>
   removeAll internalObject [''PingoRpc'', ''PingoRpc''] = [] \<and>
   effects (run (newCtrl ''pfx'' True)
       [OutputLine ''pfx: objects: PingoRpc, PingoRpc'' (Env None None),
        OutputLine ''pfx: ready: proto=tcp addr=127.0.0.1:1024'' (Env None None),
        ObjectsRequest])
   = [Dial [] ''tcp'' ''127.0.0.1:1024'', ObjectsReply (Inr [[]])]"
  by (simp add: run_def newCtrl_def on_line_def parse_def Split.simps ready_def parseReady_def
      HasPrefix_def emit_def open_ch_def internalObject_def objects_def)

text \<open>
  Claim C10. \<open>objects\<close> depends on a precondition that the supervisor does not establish.
  When the stored list is non-empty and contains \<open>PingoRpc\<close> exactly once, the result list
  of length \<open>len(objs) - 1\<close> is built without failure; when the list does not contain
  \<open>PingoRpc\<close> (the empty list included), \<open>objects\<close> panics. After a \<open>ready\<close> line with no
  earlier \<open>objects\<close> line the stored list is empty, no error is latched and the request
  channel is open, and the next Objects request makes the supervisor panic.
\<close>

theorem objects_needs_internal_once:
  "(objs c \<noteq> [] \<and> count_list (objs c) internalObject = 1 \<longrightarrow>
      objects c = Ok (removeAll internalObject (objs c)) \<and>
      length (removeAll internalObject (objs c)) = length (objs c) - 1)
   \<and> (internalObject \<notin> set (objs c) \<longrightarrow> objects c = Panic)
   \<and> objs (run (newCtrl ''pfx'' True)
        [OutputLine ''pfx: ready: proto=tcp addr=127.0.0.1:1024'' (Env None None)]) = []
   \<and> err (run (newCtrl ''pfx'' True)
        [OutputLine ''pfx: ready: proto=tcp addr=127.0.0.1:1024'' (Env None None)]) = None
   \<and> objsCh (run (newCtrl ''pfx'' True)
        [OutputLine ''pfx: ready: proto=tcp addr=127.0.0.1:1024'' (Env None None)])
   \<and> status (run (newCtrl ''pfx'' True)
        [OutputLine ''pfx: ready: proto=tcp addr=127.0.0.1:1024'' (Env None None)]) = Running
   \<and> status (run (newCtrl ''pfx'' True)
        [OutputLine ''pfx: ready: proto=tcp addr=127.0.0.1:1024'' (Env None None),
         ObjectsRequest]) = Crashed"
proof -
  have a: "objs c \<noteq> [] \<and> count_list (objs c) internalObject = 1 \<longrightarrow>
      objects c = Ok (removeAll internalObject (objs c)) \<and>
      length (removeAll internalObject (objs c)) = length (objs c) - 1"
    using objects_once [of c] count_filter_length [of internalObject "objs c"]
    by (auto simp: filter_neq_removeAll)
  have b: "internalObject \<notin> set (objs c) \<longrightarrow> objects c = Panic"
    by (simp add: objects_eq)
  have c: "run (newCtrl ''pfx'' True)
        [OutputLine ''pfx: ready: proto=tcp addr=127.0.0.1:1024'' (Env None None)]
      = (newCtrl ''pfx'' True)\<lparr>proto := ''tcp'', addr := ''127.0.0.1:1024'',
           client := Some (Client [] ''tcp'' ''127.0.0.1:1024''),
           effects := [Dial [] ''tcp'' ''127.0.0.1:1024''], timeoutCh := TimerNil,
           connCh := True, objsCh := True\<rparr>"
    by (simp add: run_def newCtrl_def on_line_def parse_def ready_def parseReady_def
      HasPrefix_def emit_def open_ch_def)
  have d: "status (run (newCtrl ''pfx'' True)
        [OutputLine ''pfx: ready: proto=tcp addr=127.0.0.1:1024'' (Env None None),
         ObjectsRequest]) = Crashed"
    by (simp add: run_def newCtrl_def on_line_def parse_def ready_def parseReady_def
      HasPrefix_def emit_def open_ch_def objects_def crash_def)
  show ?thesis
    unfolding c using a b d [unfolded run_def] by (simp add: newCtrl_def run_def)
qed

theorem objects_needs_internal_once_witness:
  "objs ((newCtrl ''pfx'' True)\<lparr>objs := [''PingoRpc'', ''Plugin'']\<rparr>) \<noteq> [] \<and>
   count_list (objs ((newCtrl ''pfx'' True)\<lparr>objs := [''PingoRpc'', ''Plugin'']\<rparr>))
     internalObject = 1 \<and>
   objects ((newCtrl ''pfx'' True)\<lparr>objs := [''PingoRpc'', ''Plugin'']\<rparr>) = Ok [''Plugin''] \<and>
   internalObject \<notin> set (objs ((newCtrl ''pfx'' True)\<lparr>objs := [''Plugin'']\<rparr>)) \<and>
   objects ((newCtrl ''pfx'' True)\<lparr>objs := [''Plugin'']\<rparr>) = Panic"
  using objects_needs_internal_once [of "(newCtrl ''pfx'' True)\<lparr>objs := [''PingoRpc'', ''Plugin'']\<rparr>"]
    objects_needs_internal_once [of "(newCtrl ''pfx'' True)\<lparr>objs := [''Plugin'']\<rparr>"]
  by (simp add: internalObject_def)

section \<open>Properties of the event loop: killing the child\<close>

lemma kill_inv_emit: "e \<noteq> ProcKill \<Longrightarrow> kill_inv c \<Longrightarrow> kill_inv (emit e c)"
  by (simp add: kill_inv_def emit_def)

lemma kill_inv_kill: "kill_inv c \<Longrightarrow> kill_inv (kill c)"
  by (simp add: kill_inv_def kill_def emit_def)

lemma kill_inv_open: "kill_inv c \<Longrightarrow> kill_inv (open_ch c)"
  by (simp add: kill_inv_def open_ch_def)

lemma kill_inv_close: "kill_inv c \<Longrightarrow> kill_inv (close_ch c)"
  by (simp add: kill_inv_def close_ch_def)

lemma kill_inv_crash: "kill_inv c \<Longrightarrow> kill_inv (crash c)"
  by (simp add: kill_inv_def crash_def)

lemma kill_inv_fatal: "kill_inv c \<Longrightarrow> kill_inv (fatal e c)"
proof -
  assume "kill_inv c"
  then have "kill_inv (c\<lparr>err := Some e\<rparr>)" by (simp add: kill_inv_def)
  then show ?thesis
    unfolding fatal_def by (intro kill_inv_kill kill_inv_open)
qed

lemma kill_inv_parseReady: "kill_inv c \<Longrightarrow> kill_inv (snd (parseReady v c))"
  by (simp add: parseReady_def Let_def kill_inv_def split: option.splits)

lemma kill_inv_ready: "kill_inv c \<Longrightarrow> kill_inv (snd (ready v en c))"
proof -
  assume c: "kill_inv c"
  obtain r c1 where p: "parseReady v c = (r, c1)"
    by (cases "parseReady v c")
  with kill_inv_parseReady [OF c, of v] have c1: "kill_inv c1" by simp
  then have c2: "kill_inv (emit (Dial (secret c1) (proto c1) (addr c1)) c1)"
    by (simp add: kill_inv_emit)
  show ?thesis
  proof (cases r)
    case None
    show ?thesis
    proof (cases "dial_err en")
      case dn: None
      from c2 show ?thesis
        unfolding ready_def p None
        by (simp add: dn Let_def kill_inv_def emit_def split: option.splits)
    next
      case (Some e)
      from c2 have "kill_inv ((emit (Dial (secret c1) (proto c1) (addr c1)) c1)\<lparr>client := None\<rparr>)"
        by (simp add: kill_inv_def)
      then show ?thesis
        unfolding ready_def p None by (simp add: Some Let_def kill_inv_fatal)
    qed
  next
    case (Some e)
    with c1 show ?thesis
      unfolding ready_def p by (simp add: kill_inv_fatal)
  qed
qed

lemma kill_inv_on_line: "kill_inv c \<Longrightarrow> kill_inv (on_line line en c)"
proof -
  assume c: "kill_inv c"
  have upd: "\<And>v. kill_inv (c\<lparr>secret := v\<rparr>)" "\<And>v. kill_inv (c\<lparr>objs := v\<rparr>)"
    using c by (simp_all add: kill_inv_def)
  have rd: "\<And>v. kill_inv (case ready v en c of (False, c1) \<Rightarrow> c1 | (True, c1) \<Rightarrow> open_ch c1)"
  proof -
    fix v
    obtain b c1 where r: "ready v en c = (b, c1)" by (cases "ready v en c")
    with kill_inv_ready [OF c, of v en] have "kill_inv c1" by simp
    then show "kill_inv (case ready v en c of (False, c1) \<Rightarrow> c1 | (True, c1) \<Rightarrow> open_ch c1)"
      by (cases b) (simp_all add: r kill_inv_open)
  qed
  show ?thesis
    unfolding on_line_def
    using c upd rd
    by (auto simp: kill_inv_crash kill_inv_fatal kill_inv_emit
        split: result.splits option.splits prod.splits)
qed

lemma kill_inv_on_kill: "kill_inv c \<Longrightarrow> kill_inv (on_kill wr c)"
proof -
  assume c: "kill_inv c"
  define c1 where "c1 = (if \<not> connCh c \<or> client c = None then kill c
                   else emit ExitCall ((emit SpawnDeadline c)\<lparr>deadlines := deadlines c + 1\<rparr>))"
  have "kill_inv c1"
    using c kill_inv_kill [OF c] by (simp add: c1_def kill_inv_def emit_def)
  then have "kill_inv (if client c1 \<noteq> None then emit ClientClose c1 else c1)"
    by (simp add: kill_inv_emit)
  then have "kill_inv ((close_ch (if client c1 \<noteq> None then emit ClientClose c1 else c1))\<lparr>over := Some wr\<rparr>)"
    by (simp add: kill_inv_def close_ch_def)
  with c show ?thesis
    unfolding on_kill_def Let_def c1_def [symmetric]
    by (simp add: kill_inv_emit)
qed

lemma kill_inv_on_wait: "kill_inv c \<Longrightarrow> kill_inv (on_wait e c)"
proof -
  assume c: "kill_inv c"
  define c1 where "c1 = (case e of
                  None \<Rightarrow> c
                | Some x \<Rightarrow> fatal x (if isExitError x then c else emit (HandlerError x) c))"
  have "kill_inv c1"
    using c by (simp add: c1_def kill_inv_fatal kill_inv_emit split: option.splits)
  then have "kill_inv (case over c1 of None \<Rightarrow> c1 | Some wr \<Rightarrow> emit (WaiterDone wr) c1)"
    by (simp add: kill_inv_emit split: option.splits)
  then show ?thesis
    unfolding on_wait_def Let_def c1_def [symmetric]
    by (simp add: kill_inv_def)
qed

lemma kill_inv_step: "kill_inv c \<Longrightarrow> kill_inv (step c ev)"
proof (cases ev)
  case Timeout
  assume c: "kill_inv c"
  then have "kill_inv (c\<lparr>timeoutCh := TimerDrained\<rparr>)" by (simp add: kill_inv_def)
  with c show ?thesis by (simp add: Timeout kill_inv_fatal)
next
  case CallRequest
  assume "kill_inv c"
  then show ?thesis by (simp add: CallRequest kill_inv_emit split: option.splits)
next
  case ObjectsRequest
  assume "kill_inv c"
  then show ?thesis
    by (simp add: ObjectsRequest kill_inv_emit kill_inv_crash split: option.splits result.splits)
next
  case (OutputLine l en)
  assume "kill_inv c"
  then show ?thesis by (simp add: OutputLine kill_inv_on_line)
next
  case (KillRequest w)
  assume "kill_inv c"
  then show ?thesis by (simp add: KillRequest kill_inv_on_kill)
next
  case (WaitReturn e)
  assume "kill_inv c"
  then show ?thesis by (simp add: WaitReturn kill_inv_on_wait)
next
  case ExitConfirm
  assume "kill_inv c"
  then show ?thesis by (simp add: ExitConfirm kill_inv_def)
next
  case (DeadlineFires f)
  assume "kill_inv c"
  then show ?thesis by (simp add: DeadlineFires kill_inv_def emit_def)
qed

lemma kill_inv_run: "kill_inv c \<Longrightarrow> kill_inv (run c evs)"
  unfolding run_def by (induction evs arbitrary: c) (simp_all add: kill_inv_step)

lemma kill_inv_newCtrl: "kill_inv (newCtrl pfx started)"
  by (simp add: kill_inv_def newCtrl_def)

lemma kill_nil: "\<not> proc c \<Longrightarrow> kill c = c"
  by (simp add: kill_def)

text \<open>
  Claim C6, as amended. Through \<open>ctrl.kill\<close> the child is killed at most once in a plugin
  lifetime: after every sequence of events, \<open>c.proc.Kill()\<close> has been called at most once;
  \<open>kill\<close> returns the state unchanged when the stored process pointer is nil, and leaves the
  pointer nil.
\<close>

theorem ctrl_kill_at_most_once:
  "count_list (effects (run (newCtrl pfx started) evs)) ProcKill \<le> 1
   \<and> (\<not> proc c \<longrightarrow> kill c = c)
   \<and> \<not> proc (kill c)"
  using kill_inv_run [OF kill_inv_newCtrl, of pfx started evs]
  by (simp add: kill_inv_def kill_def)

theorem ctrl_kill_at_most_once_witness:
  "count_list (effects (run (newCtrl ''pfx'' True)
      [Timeout, OutputLine ''pfx: fatal: err-http-serve: x'' (Env None None), KillRequest 1,
       WaitReturn (Some (WaitError True ''signal: killed''))])) ProcKill = 1
   \<and> \<not> proc (kill (newCtrl ''pfx'' True))
   \<and> kill (kill (newCtrl ''pfx'' True)) = kill (newCtrl ''pfx'' True)"
  using ctrl_kill_at_most_once [of "''pfx''" True
      "[Timeout, OutputLine ''pfx: fatal: err-http-serve: x'' (Env None None), KillRequest 1,
       WaitReturn (Some (WaitError True ''signal: killed''))]" "kill (newCtrl ''pfx'' True)"]
  by (simp add: run_def newCtrl_def fatal_def kill_def open_ch_def emit_def on_line_def parse_def
      parseError_def SplitN2_def errorCodeHttpServe_def errorCodeConnFailed_def on_kill_def
      close_ch_def on_wait_def)

text \<open>
  Claim C6 as stated fails: the deadline goroutine of a kill request kills by pid without
  looking at the stored pointer. For a child that ignores \<open>Exit\<close>, the deadline kill is
  followed by the wait error, which is latched by \<open>fatal\<close>, and \<open>fatal\<close> calls \<open>Kill\<close>
  again through the pointer that is still held: two kills in one lifetime.
\<close>

theorem deadline_kills_again_counterexample:
  "effects (run (newCtrl ''pfx'' True)
      [OutputLine ''pfx: ready: proto=tcp addr=127.0.0.1:1024'' (Env None None),
       KillRequest 1, DeadlineFires True,
       WaitReturn (Some (WaitError True ''signal: killed''))])
   = [Dial [] ''tcp'' ''127.0.0.1:1024'', SpawnDeadline, ExitCall, ClientClose, PidKill,
      ProcKill, WaiterDone 1]"
  by (simp add: run_def newCtrl_def fatal_def kill_def open_ch_def emit_def on_line_def parse_def
      ready_def parseReady_def HasPrefix_def on_kill_def close_ch_def on_wait_def)

section \<open>Properties of the event loop: the latched error\<close>


lemma isFatal_kill: "isFatal (kill c) = isFatal c"
  by (simp add: isFatal_def kill_def emit_def)


lemma isFatal_close: "isFatal (close_ch c) = isFatal c"
  by (simp add: isFatal_def close_ch_def)















section \<open>Properties of the child runtime: authentication\<close>

lemma readHeaders_loop_block:
  "NL \<notin> set xs \<Longrightarrow> xs \<noteq> [] \<or> \<not> he \<Longrightarrow>
     readHeaders_loop buf he (xs @ NL # NL # rest) = Some (buf @ xs @ [NL, NL], rest)"
proof (induction xs arbitrary: buf he)
  case Nil
  then show ?case by simp
next
  case (Cons x xs)
  from Cons.prems have "x \<noteq> NL" "NL \<notin> set xs" by auto
  with Cons.IH [of False "buf @ [x]"] show ?case by simp
qed

lemma scan_loop_block:
  "NL \<notin> set xs \<Longrightarrow> length tok + length xs < MaxScanTokenSize \<Longrightarrow>
     scan_loop tok (xs @ [NL, NL]) = [dropCR (tok @ xs), []]"
proof (induction xs arbitrary: tok)
  case Nil
  then show ?case by (simp add: dropCR_def)
next
  case (Cons x xs)
  from Cons.prems have "x \<noteq> NL" "NL \<notin> set xs"
    and "length (tok @ [x]) + length xs < MaxScanTokenSize" by auto
  with Cons.IH [of "tok @ [x]"] Cons.prems(2) show ?case by simp
qed

text \<open>
  The prologue that \<open>client.authenticate\<close> writes for a token without a newline (and not ending
  in a carriage return, which the scanner would drop) is parsed into the single header
  \<open>Auth-Token\<close>, and the connection is dispatched exactly when the token is the non-empty
  secret.
\<close>

lemma serveConn_authenticate:
  assumes nl: "NL \<notin> set tok" and cr: "tok = [] \<or> last tok \<noteq> CR"
    and len: "length tok + 12 < MaxScanTokenSize"
  shows "serveConn sec (authenticate tok @ rest)
           = (if tok = sec \<and> tok \<noteq> [] then Dispatched rest else Closed)"
proof -
  let ?line = "''Auth-Token: '' @ tok"
  from nl have nl': "NL \<notin> set ?line" by simp
  have "readHeaders (?line @ NL # NL # rest) = Some ([] @ ?line @ [NL, NL], rest)"
    unfolding readHeaders_def by (rule readHeaders_loop_block [OF nl']) simp
  then have rd: "readHeaders (authenticate tok @ rest) = Some (?line @ [NL, NL], rest)"
    by (simp add: authenticate_def)
  from len have "length ([]::string) + length ?line < MaxScanTokenSize" by simp
  from scan_loop_block [OF nl' this]
  have sc: "scan_lines (?line @ [NL, NL]) = [dropCR ?line, []]"
    by (simp add: scan_lines_def)
  from cr have dc: "dropCR ?line = ?line"
    by (auto simp: dropCR_def)
  have sp: "SplitN2 ?line '': '' = [''Auth-Token'', tok]"
    by (simp add: SplitN2_def)
  have sp0: "SplitN2 [] '': '' = [[]]"
    by (simp add: SplitN2_def)
  have "parseHeaders_loop [?line, []] Map.empty = Ok [''Auth-Token'' \<mapsto> tok]"
    by (simp add: sp sp0 del: append.simps)
  with rd sc dc have "parseHeaders (authenticate tok @ rest) Map.empty
      = Parsed [''Auth-Token'' \<mapsto> tok] rest"
    by (simp add: parseHeaders_def del: append.simps)
  then show ?thesis
    by (auto simp: serveConn_def map_index_def authConn_def)
qed

text \<open>
  No connection is dispatched without the token: a connection is handed to the RPC server if
  and only if \<open>parseHeaders\<close> returned a header map whose \<open>Auth-Token\<close> entry is the server's
  secret and the secret is not empty. When the header block parses and omits \<open>Auth-Token\<close> or
  carries another value, the connection is closed without a dispatch. For the prologue written
  by the host's \<open>authenticate\<close>: dispatch if and only if the token sent is the non-empty secret.
\<close>

lemma serveConn_dispatch_iff:
  "((\<exists>rest. serveConn sec input = Dispatched rest) \<longleftrightarrow>
      (\<exists>headers rest. parseHeaders input Map.empty = Parsed headers rest \<and>
         headers ''Auth-Token'' = Some sec \<and> sec \<noteq> []))
   \<and> (parseHeaders input Map.empty = Parsed headers rest \<and> headers ''Auth-Token'' \<noteq> Some sec
        \<longrightarrow> serveConn sec input = Closed)
   \<and> (NL \<notin> set tok \<and> (tok = [] \<or> last tok \<noteq> CR) \<and> length tok + 12 < MaxScanTokenSize
        \<longrightarrow> serveConn sec (authenticate tok @ rpc)
              = (if tok = sec \<and> tok \<noteq> [] then Dispatched rpc else Closed))"
proof (intro conjI)
  show "(\<exists>rest. serveConn sec input = Dispatched rest) \<longleftrightarrow>
      (\<exists>headers rest. parseHeaders input Map.empty = Parsed headers rest \<and>
         headers ''Auth-Token'' = Some sec \<and> sec \<noteq> [])"
    by (auto simp: serveConn_def map_index_def authConn_def
        split: parsed.splits option.splits if_splits)
  show "parseHeaders input Map.empty = Parsed headers rest \<and> headers ''Auth-Token'' \<noteq> Some sec
        \<longrightarrow> serveConn sec input = Closed"
    by (auto simp: serveConn_def map_index_def authConn_def split: option.splits)
  show "NL \<notin> set tok \<and> (tok = [] \<or> last tok \<noteq> CR) \<and> length tok + 12 < MaxScanTokenSize
        \<longrightarrow> serveConn sec (authenticate tok @ rpc)
              = (if tok = sec \<and> tok \<noteq> [] then Dispatched rpc else Closed)"
    using serveConn_authenticate [of tok sec rpc] by blast
qed

lemma serveConn_dispatch_examples:
  "serveConn ''s3cret'' (authenticate ''s3cret'' @ ''rpc'') = Dispatched ''rpc'' \<and>
   serveConn ''s3cret'' (authenticate ''guess'' @ ''rpc'') = Closed \<and>
   serveConn ''s3cret'' (''Hello: world'' @ [NL, NL] @ ''rpc'') = Closed \<and>
   serveConn ''s3cret'' ''Auth-Token: s3cret'' = ClosedAfterError"
  by (simp add: serveConn_def parseHeaders_def readHeaders_def scan_lines_def
      MaxScanTokenSize_def dropCR_def SplitN2_def authenticate_def map_index_def authConn_def)

text \<open>
  The outcome of \<open>serveConn\<close> on every connection: the read error when the bytes end before a
  blank line, a panic exactly when the header block has a non-empty line without the
  separator, and otherwise the comparison of the token.
\<close>

lemma parseHeaders_loop_Panic_iff:
  "parseHeaders_loop ls m = Panic \<longleftrightarrow> (\<exists>l \<in> set ls. l \<noteq> [] \<and> Index l '': '' = None)"
proof (induction ls arbitrary: m)
  case Nil
  then show ?case by simp
next
  case (Cons l ls)
  show ?case
  proof (cases "Index l '': ''")
    case None
    then show ?thesis
      by (cases "l = []") (simp_all add: SplitN2_def Cons.IH)
  next
    case (Some i)
    then show ?thesis
      by (auto simp: SplitN2_def Let_def Cons.IH)
  qed
qed

lemma serveConn_Panic_iff:
  "serveConn sec input = ServePanic \<longleftrightarrow>
     (\<exists>headers rest. readHeaders input = Some (headers, rest) \<and>
        (\<exists>l \<in> set (scan_lines headers). l \<noteq> [] \<and> Index l '': '' = None))"
proof -
  have "serveConn sec input = ServePanic \<longleftrightarrow> parseHeaders input Map.empty = ParsePanic"
    by (simp add: serveConn_def split: parsed.splits)
  also have "\<dots> \<longleftrightarrow> (\<exists>headers rest. readHeaders input = Some (headers, rest) \<and>
        parseHeaders_loop (scan_lines headers) Map.empty = Panic)"
    by (auto simp: parseHeaders_def split: option.splits result.splits)
  finally show ?thesis
    by (simp only: parseHeaders_loop_Panic_iff)
qed


section \<open>Properties of the child runtime: the bind retries\<close>

lemma bind_loop_length: "length (fst (bind_loop listen pj g pr n i conn k e)) \<le> n"
proof (induction n arbitrary: i conn k e)
  case 0
  then show ?case by simp
next
  case (Suc n)
  obtain a conn' k' where a: "conn_addr pj g conn k = (a, conn', k')"
    by (cases "conn_addr pj g conn k")
  show ?case
  proof (cases "listen pr a i")
    case None
    with a show ?thesis by simp
  next
    case (Some e')
    obtain tried e'' where r: "bind_loop listen pj g pr n (Suc i) conn' k' (Some e') = (tried, e'')"
      by (cases "bind_loop listen pj g pr n (Suc i) conn' k' (Some e')")
    with Suc.IH [of "Suc i" conn' k' "Some e'"] a Some show ?thesis by simp
  qed
qed

lemma bind_loop_tcp_nth:
  "1023 \<le> t \<Longrightarrow> j < length (fst (bind_loop listen pj g pr n i (Tcp t) k e)) \<Longrightarrow>
     fst (bind_loop listen pj g pr n i (Tcp t) k e) ! j = ''127.0.0.1:'' @ itoa (t + 1 + int j)"
proof (induction n arbitrary: i t k e j)
  case 0
  then show ?case by simp
next
  case (Suc n)
  from Suc.prems(1) have "(if t < 1024 then 1023 else t) = t"
    by simp
  then have a: "conn_addr pj g (Tcp t) k = (''127.0.0.1:'' @ itoa (t + 1), Tcp (t + 1), k)"
    by (simp add: Let_def)
  show ?case
  proof (cases "listen pr (''127.0.0.1:'' @ itoa (t + 1)) i")
    case None
    with a Suc.prems(2) show ?thesis by simp
  next
    case (Some e')
    obtain tried e'' where r: "bind_loop listen pj g pr n (Suc i) (Tcp (t + 1)) k (Some e') = (tried, e'')"
      by (cases "bind_loop listen pj g pr n (Suc i) (Tcp (t + 1)) k (Some e')")
    from a Some r have eq: "fst (bind_loop listen pj g pr (Suc n) i (Tcp t) k e)
        = (''127.0.0.1:'' @ itoa (t + 1)) # tried"
      by simp
    show ?thesis
    proof (cases j)
      case 0
      with eq show ?thesis by simp
    next
      case (Suc j')
      with Suc.prems(2) eq have "j' < length tried" by simp
      with r have jl: "j' < length (fst (bind_loop listen pj g pr n (Suc i) (Tcp (t + 1)) k (Some e')))"
        by simp
      have t1: "1023 \<le> t + 1" using Suc.prems(1) by simp
      from Suc.IH [OF t1 jl] r
      have "tried ! j' = ''127.0.0.1:'' @ itoa (t + 1 + 1 + int j')" by simp
      moreover have "t + 1 + 1 + int j' = t + 1 + int (Suc j')" by simp
      ultimately have "tried ! j' = ''127.0.0.1:'' @ itoa (t + 1 + int (Suc j'))"
        by (simp only:)
      then show ?thesis
        unfolding eq Suc by (simp only: nth_Cons_Suc)
    qed
  qed
qed

lemma bind_loop_tcp_zero:
  "bind_loop listen pj g pr n i (Tcp 0) k e = bind_loop listen pj g pr n i (Tcp 1023) k e"
  by (cases n) (simp_all add: Let_def)

lemma bind_loop_first:
  "conn_addr pj g conn k = (a, conn', k') \<Longrightarrow> listen pr a i = None \<Longrightarrow>
     bind_loop listen pj g pr (Suc n) i conn k e = ([a], None)"
  by simp

text \<open>The outcome of the loop: it stops at the first success, and fails when every attempt fails.\<close>

lemma bind_loop_success:
  "bind_loop listen pj g pr n i conn k e = (tried, None) \<Longrightarrow> 0 < n \<Longrightarrow>
     tried \<noteq> [] \<and> listen pr (last tried) (i + length tried - 1) = None \<and>
     (\<forall>j < length tried - 1. listen pr (tried ! j) (i + j) \<noteq> None)"
proof (induction n arbitrary: i conn k e tried)
  case 0
  then show ?case by simp
next
  case (Suc n)
  obtain a conn' k' where a: "conn_addr pj g conn k = (a, conn', k')"
    by (cases "conn_addr pj g conn k")
  show ?case
  proof (cases "listen pr a i")
    case None
    with a Suc.prems(1) have "tried = [a]" by simp
    with None show ?thesis by simp
  next
    case (Some e')
    obtain tr e'' where r: "bind_loop listen pj g pr n (Suc i) conn' k' (Some e') = (tr, e'')"
      by (cases "bind_loop listen pj g pr n (Suc i) conn' k' (Some e')")
    with a Some Suc.prems(1) have t: "tried = a # tr" and e: "e'' = None" by simp_all
    have n: "0 < n"
    proof (rule ccontr)
      assume "\<not> 0 < n"
      with r e show False by simp
    qed
    from Suc.IH [OF r [unfolded e] n]
    have ih: "tr \<noteq> []" "listen pr (last tr) (Suc i + length tr - 1) = None"
      "\<forall>j < length tr - 1. listen pr (tr ! j) (Suc i + j) \<noteq> None"
      by simp_all
    have "\<forall>j < length tried - 1. listen pr (tried ! j) (i + j) \<noteq> None"
    proof (intro allI impI)
      fix j assume j: "j < length tried - 1"
      show "listen pr (tried ! j) (i + j) \<noteq> None"
      proof (cases j)
        case 0
        with t Some show ?thesis by simp
      next
        case (Suc j')
        with j t have "j' < length tr - 1" by simp
        with ih(3) have "listen pr (tr ! j') (Suc i + j') \<noteq> None" by blast
        with Suc t show ?thesis by simp
      qed
    qed
    with ih(1,2) t show ?thesis by simp
  qed
qed

lemma bind_loop_all_fail:
  "\<forall>a j. listen pr a j \<noteq> None \<Longrightarrow> 0 < n \<Longrightarrow>
     length (fst (bind_loop listen pj g pr n i conn k e)) = n \<and>
     snd (bind_loop listen pj g pr n i conn k e) \<noteq> None"
proof (induction n arbitrary: i conn k e)
  case 0
  then show ?case by simp
next
  case (Suc n)
  obtain a conn' k' where a: "conn_addr pj g conn k = (a, conn', k')"
    by (cases "conn_addr pj g conn k")
  from Suc.prems(1) obtain e' where l: "listen pr a i = Some e'" by auto
  obtain tr e'' where r: "bind_loop listen pj g pr n (Suc i) conn' k' (Some e') = (tr, e'')"
    by (cases "bind_loop listen pj g pr n (Suc i) conn' k' (Some e')")
  show ?case
  proof (cases n)
    case 0
    with a l show ?thesis by simp
  next
    case (Suc m)
    then have "0 < n" by simp
    from Suc.IH [OF Suc.prems(1) this, of "Suc i" conn' k' "Some e'"] r a l
    show ?thesis by simp
  qed
qed

lemma bind_loop_unix_names:
  "a \<in> set (fst (bind_loop listen pj g pr n i (Unix []) k e)) \<Longrightarrow> length a = 8"
proof (induction n arbitrary: i k e)
  case 0
  then show ?case by simp
next
  case (Suc n)
  have ca: "conn_addr pj g (Unix []) k = (fst (randstr 8 g k), Unix [], k + 8)"
    by (simp add: randstr_def)
  have len: "length (fst (randstr 8 g k)) = 8"
    by (simp add: randstr_def)
  show ?case
  proof (cases "listen pr (fst (randstr 8 g k)) i")
    case None
    with ca Suc.prems len show ?thesis by simp
  next
    case (Some e')
    obtain tr e'' where r: "bind_loop listen pj g pr n (Suc i) (Unix []) (k + 8) (Some e') = (tr, e'')"
      by (cases "bind_loop listen pj g pr n (Suc i) (Unix []) (k + 8) (Some e')")
    with ca Some Suc.prems have "a = fst (randstr 8 g k) \<or> a \<in> set tr" by simp
    with len Suc.IH [of "Suc i" "k + 8" "Some e'"] r show ?thesis by auto
  qed
qed

lemma rpcServer_run_tried:
  "fst (snd (rpcServer_run listen pj g conf names sec))
     = (if conf_proto conf = ''tcp''
        then fst (bind_loop listen pj g ''tcp'' 500 0 (Tcp 0) 0 None)
        else fst (bind_loop listen pj g ''unix'' 4 0 (Unix []) 0 None))"
  by (simp add: rpcServer_run_def Let_def split: prod.splits option.splits)

lemma rpcServer_run_err:
  "snd (snd (rpcServer_run listen pj g conf names sec))
     = (if conf_proto conf = ''tcp''
        then snd (bind_loop listen pj g ''tcp'' 500 0 (Tcp 0) 0 None)
        else snd (bind_loop listen pj g ''unix'' 4 0 (Unix []) 0 None))"
  by (simp add: rpcServer_run_def Let_def split: prod.splits option.splits)

text \<open>
  The bind policy of the code. With \<open>tcp\<close> the attempts are the consecutive loopback ports from
  1024, at most 500 of them; with \<open>unix\<close> they are at most 4 bare names of 8 characters, with
  no directory in front, whatever \<open>conf.unixdir\<close> holds.
\<close>

lemma rpcServer_run_tcp_attempts:
  assumes "conf_proto conf = ''tcp''"
    and "j < length (fst (snd (rpcServer_run listen pj g conf names sec)))"
  shows "fst (snd (rpcServer_run listen pj g conf names sec)) ! j
           = ''127.0.0.1:'' @ itoa (1024 + int j)"
    and "length (fst (snd (rpcServer_run listen pj g conf names sec))) \<le> 500"
proof -
  let ?b = "bind_loop listen pj g ''tcp'' 500 0 (Tcp 1023) 0 None"
  from assms(1) have eq: "fst (snd (rpcServer_run listen pj g conf names sec)) = fst ?b"
    by (simp add: rpcServer_run_tried bind_loop_tcp_zero)
  with assms(2) have "j < length (fst ?b)" by simp
  from bind_loop_tcp_nth [OF _ this] eq
  show "fst (snd (rpcServer_run listen pj g conf names sec)) ! j
           = ''127.0.0.1:'' @ itoa (1024 + int j)"
    by simp
  from eq bind_loop_length [of listen pj g "''tcp''" 500 0 "Tcp 1023" 0 None]
  show "length (fst (snd (rpcServer_run listen pj g conf names sec))) \<le> 500"
    by simp
qed

lemma rpcServer_run_unix_attempts:
  assumes "conf_proto conf \<noteq> ''tcp''"
  shows "\<forall>a \<in> set (fst (snd (rpcServer_run listen pj g conf names sec))). length a = 8"
    and "length (fst (snd (rpcServer_run listen pj g conf names sec))) \<le> 4"
proof -
  let ?b = "bind_loop listen pj g ''unix'' 4 0 (Unix []) 0 None"
  from assms have eq: "fst (snd (rpcServer_run listen pj g conf names sec)) = fst ?b"
    by (simp add: rpcServer_run_tried)
  show "\<forall>a \<in> set (fst (snd (rpcServer_run listen pj g conf names sec))). length a = 8"
    unfolding eq using bind_loop_unix_names by blast
  from eq bind_loop_length [of listen pj g "''unix''" 4 0 "Unix []" 0 None]
  show "length (fst (snd (rpcServer_run listen pj g conf names sec))) \<le> 4"
    by simp
qed

lemma rpcServer_run_all_fail:
  assumes "\<forall>p a j. listen p a j \<noteq> None"
  shows "snd (snd (rpcServer_run listen pj g conf names sec)) \<noteq> None"
    and "\<exists>msg. last (fst (rpcServer_run listen pj g conf names sec))
           = meta_output (conf_prefix conf) ''fatal'' (errorCodeConnFailed @ '': '' @ msg)"
proof -
  show e: "snd (snd (rpcServer_run listen pj g conf names sec)) \<noteq> None"
  proof -
    from assms have t: "\<forall>a j. listen ''tcp'' a j \<noteq> None"
      and u: "\<forall>a j. listen ''unix'' a j \<noteq> None" by blast+
    from t u bind_loop_all_fail [of listen "''tcp''" 500 pj g 0 "Tcp 0" 0 None]
      bind_loop_all_fail [of listen "''unix''" 4 pj g 0 "Unix []" 0 None]
    show ?thesis
      by (simp add: rpcServer_run_err)
  qed
  then show "\<exists>msg. last (fst (rpcServer_run listen pj g conf names sec))
           = meta_output (conf_prefix conf) ''fatal'' (errorCodeConnFailed @ '': '' @ msg)"
    by (auto simp: rpcServer_run_def Let_def split: prod.splits option.splits if_splits)
qed

text \<open>
  Claim C7 fails on the code in its \<open>unix\<close> part: the child was started with the socket
  directory \<open>/tmp\<close>, every listen succeeds, and the address it binds and announces is the
  bare random name \<open>abcdefgh\<close>, relative to the working directory, not \<open>/tmp/abcdefgh\<close>.
\<close>

theorem unix_bind_ignores_socket_directory:
  "rpcServer_run (\<lambda>pr a i. None) (\<lambda>d n. d @ ''/'' @ n) (\<lambda>i. i)
     (Config ''unix'' [] ''pfx'' ''/tmp'') [''PingoRpc'', ''Plugin''] ''s3cret''
   = ([''pfx: objects: PingoRpc, Plugin'', ''pfx: auth-token: s3cret'',
       ''pfx: ready: proto=unix addr=abcdefgh''],
      [''abcdefgh''], None)"
proof -
  have r8: "randstr 8 (\<lambda>i. i) 0 = (''abcdefgh'', 8)"
    by code_simp
  have ca: "conn_addr (\<lambda>d n. d @ ''/'' @ n) (\<lambda>i. i) (Unix []) 0 = (''abcdefgh'', Unix [], 8)"
    by (simp add: r8)
  have "bind_loop (\<lambda>pr a i. None) (\<lambda>d n. d @ ''/'' @ n) (\<lambda>i. i) ''unix'' 4 0 (Unix []) 0 None
      = ([''abcdefgh''], None)"
    using bind_loop_first [OF ca, of "\<lambda>pr a i. None" "''unix''" 0 3 None] by simp
  then show ?thesis
    by (simp add: rpcServer_run_def meta_output_def)
qed

end
